theory Spec2Isabelle
  imports Main "HOL-Library.Word" "HOL-Library.Product_Lexorder"
begin

unbundle bit_operations_syntax

section \<open>Data model\<close>

text \<open>
  A pixel is the tuple \<open>(r, g, b)\<close> that \<open>pixels[x, y]\<close> yields for an 8-bit RGB image; the
  pixel access object is a function of the coordinate pair \<open>(x, y)\<close>, and \<open>img.size\<close> gives
  \<open>width\<close> and \<open>height\<close>. Only RGB images are modelled: it is the mode on which every
  unpacking \<open>r, g, b = pixels[x, y]\<close> of the sources succeeds.

  The importance map is the \<open>uint8\<close> array returned by \<open>generate_importance_map\<close>, indexed
  \<open>[y, x]\<close>. The edge filter and the normalisation are library calls on floating point
  numbers; the encoder and the decoder are therefore modelled as functions of the array
  that these calls returned.

  A Python \<open>str\<close> is the list of its code points; a string of the characters \<open>0\<close> and \<open>1\<close>
  (the \<open>binary\<close> strings of the sources) is an Isabelle \<open>string\<close>.
\<close>

type_synonym pixel = "8 word \<times> 8 word \<times> 8 word"

record image =
  width :: nat
  height :: nat
  pixels :: "nat \<times> nat \<Rightarrow> pixel"

type_synonym importance_map = "nat \<times> nat \<Rightarrow> 8 word"

type_synonym pystr = "nat list"

type_synonym candidate = "nat \<times> nat \<times> 8 word"

datatype value_error =
    UnsupportedFormat string
  | MessageTooLarge int
  | NotEnoughPixels nat nat

datatype exn =
    FileNotFoundError
  | ValueError value_error
  | IOError
  | NameError string
  | UnboundLocalError string
  | UnicodeEncodeError

text \<open>
  What the file system and the image libraries answer for one \<open>image_path\<close>: whether
  \<open>os.path.exists\<close> holds, the lower-cased extension \<open>os.path.splitext(image_path)[1].lower()\<close>,
  and the decoded image (\<open>None\<close> when the file cannot be decoded, in which case
  \<open>Image.open\<close> raises and \<open>cv2.imread\<close> returns \<open>None\<close>).
\<close>

record image_file =
  path_exists :: bool
  file_ext :: string
  contents :: "image option"

section \<open>utils.py\<close>

definition supported_formats :: "string list" where
  "supported_formats = [''.png'', ''.jpg'', ''.jpeg'', ''.bmp'']"

definition validate_image_path :: "image_file \<Rightarrow> exn + bool" where
  "validate_image_path f =
     (if \<not> path_exists f then Inl FileNotFoundError
      else if file_ext f \<notin> set supported_formats
           then Inl (ValueError (UnsupportedFormat (file_ext f)))
      else Inr True)"

definition calculate_max_message_size :: "image_file \<Rightarrow> exn + int" where
  "calculate_max_message_size f =
     (case contents f of
        None \<Rightarrow> Inl IOError
      | Some img \<Rightarrow>
          (let max_bits = int (width img) * int (height img) - 8;
               max_chars = max_bits div 8
           in Inr max_chars))"

section \<open>Bits, bytes and text\<close>

text \<open>\<open>int(bit)\<close> for a character of a binary string, and \<open>str(r & 1)\<close>.\<close>

definition int_of_bit :: "char \<Rightarrow> 8 word" where
  "int_of_bit c = (if c = CHR ''1'' then 1 else 0)"

definition str_of_lsb :: "8 word \<Rightarrow> char" where
  "str_of_lsb r = (if r AND 1 = 1 then CHR ''1'' else CHR ''0'')"

text \<open>\<open>(r & ~1) | int(bit)\<close>\<close>

definition set_lsb :: "8 word \<Rightarrow> char \<Rightarrow> 8 word" where
  "set_lsb r c = (r AND NOT 1) OR int_of_bit c"

text \<open>
  \<open>format(n, '08b')\<close>: the binary digits of \<open>n\<close>, most significant first, padded with
  zeros on the left to at least eight characters (longer when \<open>n > 255\<close>).
\<close>

fun bin_digits :: "nat \<Rightarrow> string" where
  "bin_digits n =
     (if n < 2 then [if n = 1 then CHR ''1'' else CHR ''0'']
      else bin_digits (n div 2) @ [if n mod 2 = 1 then CHR ''1'' else CHR ''0''])"

declare bin_digits.simps [simp del]

definition format_08b :: "nat \<Rightarrow> string" where
  "format_08b n = (let d = bin_digits n in replicate (8 - length d) (CHR ''0'') @ d)"

text \<open>\<open>int(s, 2)\<close> on a string of binary digits.\<close>

definition int_base2 :: "string \<Rightarrow> nat" where
  "int_base2 s = foldl (\<lambda>acc c. 2 * acc + (if c = CHR ''1'' then 1 else 0)) 0 s"

text \<open>
  \<open>str.encode('utf-8')\<close>: one to four bytes per code point; a surrogate code point cannot
  be encoded and raises \<open>UnicodeEncodeError\<close>.
\<close>

definition utf8_char :: "nat \<Rightarrow> 8 word list option" where
  "utf8_char c =
     (if c < 0x80 then Some [of_nat c]
      else if c < 0x800 then Some [of_nat (0xC0 + c div 64), of_nat (0x80 + c mod 64)]
      else if 0xD800 \<le> c \<and> c \<le> 0xDFFF then None
      else if c < 0x10000 then
        Some [of_nat (0xE0 + c div 4096), of_nat (0x80 + (c div 64) mod 64),
              of_nat (0x80 + c mod 64)]
      else if c < 0x110000 then
        Some [of_nat (0xF0 + c div 262144), of_nat (0x80 + (c div 4096) mod 64),
              of_nat (0x80 + (c div 64) mod 64), of_nat (0x80 + c mod 64)]
      else None)"

fun encode_utf8 :: "pystr \<Rightarrow> exn + 8 word list" where
  "encode_utf8 [] = Inr []"
| "encode_utf8 (c # cs) =
     (case utf8_char c of
        None \<Rightarrow> Inl UnicodeEncodeError
      | Some bs \<Rightarrow> (case encode_utf8 cs of Inl e \<Rightarrow> Inl e | Inr rest \<Rightarrow> Inr (bs @ rest)))"

text \<open>
  \<open>bytes.decode('utf-8')\<close>, strict: \<open>None\<close> stands for \<open>UnicodeDecodeError\<close>. Overlong
  forms, surrogates, values above \<open>0x10FFFF\<close>, stray continuation bytes and truncated
  sequences are rejected.
\<close>

definition is_cont :: "8 word \<Rightarrow> bool" where
  "is_cont b = (0x80 \<le> unat b \<and> unat b \<le> 0xBF)"

definition cont_bits :: "8 word \<Rightarrow> nat" where
  "cont_bits b = unat b mod 64"

fun decode_utf8 :: "8 word list \<Rightarrow> pystr option" where
  "decode_utf8 [] = Some []"
| "decode_utf8 (b0 # bs) =
     (let n0 = unat b0 in
      if n0 < 0x80 then map_option ((#) n0) (decode_utf8 bs)
      else if 0xC2 \<le> n0 \<and> n0 \<le> 0xDF then
        (case bs of
           b1 # r1 \<Rightarrow>
             if is_cont b1
             then map_option ((#) ((n0 mod 32) * 64 + cont_bits b1)) (decode_utf8 r1)
             else None
         | _ \<Rightarrow> None)
      else if 0xE0 \<le> n0 \<and> n0 \<le> 0xEF then
        (case bs of
           b1 # b2 # r2 \<Rightarrow>
             if is_cont b1 \<and> is_cont b2
                \<and> (if n0 = 0xE0 then 0xA0 \<le> unat b1 else True)
                \<and> (if n0 = 0xED then unat b1 \<le> 0x9F else True)
             then map_option ((#) ((n0 mod 16) * 4096 + cont_bits b1 * 64 + cont_bits b2))
                    (decode_utf8 r2)
             else None
         | _ \<Rightarrow> None)
      else if 0xF0 \<le> n0 \<and> n0 \<le> 0xF4 then
        (case bs of
           b1 # b2 # b3 # r3 \<Rightarrow>
             if is_cont b1 \<and> is_cont b2 \<and> is_cont b3
                \<and> (if n0 = 0xF0 then 0x90 \<le> unat b1 else True)
                \<and> (if n0 = 0xF4 then unat b1 \<le> 0x8F else True)
             then map_option
                    ((#) ((n0 mod 8) * 262144 + cont_bits b1 * 4096 + cont_bits b2 * 64
                          + cont_bits b3))
                    (decode_utf8 r3)
             else None
         | _ \<Rightarrow> None)
      else None)"

text \<open>
  \<open>bytes.decode('latin-1')\<close>: a byte decodes to the code point of the same value; the codec
  fails on a value that is not one of its 256 code points.
\<close>

definition decode_latin1 :: "8 word list \<Rightarrow> pystr option" where
  "decode_latin1 bs = (if list_all (\<lambda>b. unat b < 256) bs then Some (map unat bs) else None)"

text \<open>
  \<open>range(0, len(binary), 8)\<close> and the slices \<open>binary[i:i+8]\<close>; the last slice is shorter
  than eight characters when the length is not a multiple of eight.
\<close>

definition range_step8 :: "nat \<Rightarrow> nat list" where
  "range_step8 n = map (\<lambda>k. k * 8) [0..<(n + 7) div 8]"

definition slices8 :: "string \<Rightarrow> string list" where
  "slices8 binary = map (\<lambda>i. take 8 (drop i binary)) (range_step8 (length binary))"

section \<open>ai_encoder.py\<close>

text \<open>
  The two nested loops over \<open>range(height)\<close> and \<open>range(width)\<close> that collect the tuples
  \<open>(x, y, importance_map[y, x])\<close> with \<open>importance_map[y, x] >= threshold\<close>. The same
  enumeration is written as a comprehension in the decoder.
\<close>

definition scan_candidates :: "importance_map \<Rightarrow> nat \<Rightarrow> nat \<Rightarrow> int \<Rightarrow> candidate list" where
  "scan_candidates importance_map w h threshold =
     concat (map (\<lambda>y. concat (map (\<lambda>x.
        if threshold \<le> uint (importance_map (y, x)) then [(x, y, importance_map (y, x))] else [])
        [0..<w])) [0..<h])"

text \<open>
  \<open>pixel_importance.sort(key=lambda p: p[2], reverse=True)\<close>. Python's sort is stable, and
  with \<open>reverse=True\<close> it reverses the list, sorts it in ascending key order and reverses
  the result, so that elements with equal keys keep their original relative order.
\<close>

definition sort_encoder :: "candidate list \<Rightarrow> candidate list" where
  "sort_encoder pixel_importance = rev (sort_key (\<lambda>p. snd (snd p)) (rev pixel_importance))"

definition message_bits :: "8 word list \<Rightarrow> string" where
  "message_bits message_bytes = concat (map (\<lambda>byte. format_08b (unat byte)) message_bytes)"

definition encoder_terminator :: string where
  "encoder_terminator = ''1111111111111111111111111111111111111111111111111111111111111110''"

text \<open>One iteration of the loop \<open>for idx, bit in enumerate(binary_message)\<close>.\<close>

definition write_bit ::
  "candidate list \<Rightarrow> nat \<times> char \<Rightarrow> (nat \<times> nat \<Rightarrow> pixel) \<Rightarrow> (nat \<times> nat \<Rightarrow> pixel)" where
  "write_bit pixel_importance ib px =
     (case ib of (idx, c) \<Rightarrow>
        if idx < length pixel_importance then
          (case pixel_importance ! idx of (x, y, _) \<Rightarrow>
             (case px (x, y) of (r, g, b) \<Rightarrow> px((x, y) := (set_lsb r c, g, b))))
        else px)"

definition write_bits ::
  "candidate list \<Rightarrow> string \<Rightarrow> (nat \<times> nat \<Rightarrow> pixel) \<Rightarrow> (nat \<times> nat \<Rightarrow> pixel)" where
  "write_bits pixel_importance binary_message px =
     fold (write_bit pixel_importance) (enumerate 0 binary_message) px"

text \<open>
  \<open>encode_ai(image_path, message, output_path, threshold)\<close>. The first component of the
  result is the returned value or the exception that reaches the caller; the second is the
  in-memory pixel buffer when the call ends (\<open>None\<close> when the image was not opened yet).
  On success this buffer is what \<open>img.save\<close> writes. \<open>create_backup\<close> swallows its own
  errors and does not touch the buffer.
\<close>

definition encode_ai ::
  "image_file \<Rightarrow> importance_map \<Rightarrow> pystr \<Rightarrow> int \<Rightarrow> (exn + bool) \<times> image option" where
  "encode_ai f importance_map message threshold =
     (case validate_image_path f of
        Inl e \<Rightarrow> (Inl e, None)
      | Inr _ \<Rightarrow>
     (case calculate_max_message_size f of
        Inl e \<Rightarrow> (Inl e, None)
      | Inr max_chars \<Rightarrow>
     if int (length message) > max_chars
     then (Inl (ValueError (MessageTooLarge max_chars)), None)
     else
     (case contents f of
        None \<Rightarrow> (Inl IOError, None)
      | Some img \<Rightarrow>
     (let pixel_importance =
            sort_encoder (scan_candidates importance_map (width img) (height img) threshold)
      in
     (case encode_utf8 message of
        Inl e \<Rightarrow> (Inl e, Some img)
      | Inr message_bytes \<Rightarrow>
     (let binary_message = message_bits message_bytes @ encoder_terminator in
      if length binary_message > length pixel_importance
      then (Inl (ValueError (NotEnoughPixels (length binary_message) (length pixel_importance))),
            Some img)
      else (Inr True,
            Some (img\<lparr>pixels := write_bits pixel_importance binary_message (pixels img)\<rparr>))))))))"

section \<open>lsb_decoder.py\<close>

text \<open>The raster scan \<open>for y in range(height): for x in range(width)\<close>.\<close>

definition raster :: "nat \<Rightarrow> nat \<Rightarrow> (nat \<times> nat) list" where
  "raster w h = concat (map (\<lambda>y. map (\<lambda>x. (x, y)) [0..<w]) [0..<h])"

text \<open>
  The extraction loop of \<open>decode_lsb\<close> over the pixels in raster order; the \<open>break\<close> leaves
  both loops.
\<close>

fun lsb_scan :: "pixel list \<Rightarrow> string \<Rightarrow> string" where
  "lsb_scan [] binary = binary"
| "lsb_scan ((r, g, b) # ps) binary =
     (let binary' = binary @ [str_of_lsb r] in
      if length binary' mod 8 = 0 \<and> length binary' \<ge> 8 then
        (if drop (length binary' - 8) binary' = ''11111110''
         then take (length binary' - 8) binary'
         else lsb_scan ps binary')
      else lsb_scan ps binary')"

definition chars_of_binary :: "string \<Rightarrow> pystr" where
  "chars_of_binary binary =
     map int_base2 (filter (\<lambda>c. length c = 8) (slices8 binary))"

definition decode_lsb :: "image_file \<Rightarrow> exn + pystr" where
  "decode_lsb f =
     (case validate_image_path f of
        Inl e \<Rightarrow> Inl e
      | Inr _ \<Rightarrow>
     (case contents f of
        None \<Rightarrow> Inl IOError
      | Some img \<Rightarrow>
     (let binary = lsb_scan (map (pixels img) (raster (width img) (height img))) [];
          message = chars_of_binary binary
      in if message = [] then Inr [] else Inr message)))"



section \<open>ai_decoder.py\<close>

text \<open>
  \<open>pixel_importance.sort(key=lambda p: (-p[2], p[0], p[1]))\<close>. The score \<open>p[2]\<close> is a
  \<open>numpy.uint8\<close> scalar, so its negation is taken modulo 256: the key of score 0 is 0, the
  key of score 255 is 1, and the key of score 1 is 255. Tuples compare lexicographically.
\<close>

definition sort_decoder :: "candidate list \<Rightarrow> candidate list" where
  "sort_decoder pixel_importance =
     sort_key (\<lambda>p. (- snd (snd p), fst p, fst (snd p))) pixel_importance"

text \<open>\<open>terminator = '1' * 64 + '11111110'\<close>, then \<open>terminator = terminator[:64]\<close>.\<close>

definition decoder_terminator :: string where
  "decoder_terminator = take 64 (replicate 64 (CHR ''1'') @ ''11111110'')"

text \<open>
  The extraction loop \<open>for x, y, _ in pixel_importance\<close>; the first argument is the list of
  characters \<open>str(r & 1)\<close> of the candidates that are still to be visited.
\<close>

fun extract_bits :: "string \<Rightarrow> string \<Rightarrow> string" where
  "extract_bits [] binary = binary"
| "extract_bits (c # cs) binary =
     (let binary' = binary @ [c] in
      if length binary' \<ge> 64 \<and> drop (length binary' - 64) binary' = decoder_terminator
      then take (length binary' - 64) binary'
      else extract_bits cs binary')"

definition candidate_lsbs :: "(nat \<times> nat \<Rightarrow> pixel) \<Rightarrow> candidate list \<Rightarrow> string" where
  "candidate_lsbs px pixel_importance =
     map (\<lambda>p. str_of_lsb (fst (px (fst p, fst (snd p))))) pixel_importance"

definition bytes_of_binary :: "string \<Rightarrow> 8 word list" where
  "bytes_of_binary binary =
     map (\<lambda>byte. of_nat (int_base2 byte)) (filter (\<lambda>byte. length byte = 8) (slices8 binary))"

text \<open>
  The nested \<open>try\<close> that decodes the byte array: strict UTF-8, then Latin-1, then the call
  of \<open>decode_lsb\<close>.
\<close>

definition decode_with_fallbacks :: "image_file \<Rightarrow> 8 word list \<Rightarrow> exn + pystr" where
  "decode_with_fallbacks f byte_array =
     (case decode_utf8 byte_array of
        Some s \<Rightarrow> Inr s
      | None \<Rightarrow>
          (case decode_latin1 byte_array of
             Some s \<Rightarrow> Inr s
           | None \<Rightarrow> decode_lsb f))"

text \<open>
  The statements of the \<open>try\<close> block after the assignment of \<open>logger\<close>: the importance map
  is the array the nested \<open>generate_importance_map\<close> returned, which raises \<open>IOError\<close> when
  the image cannot be read. \<open>decoder_lsbs\<close> is the sequence of red least significant
  bits in the order of the sorted candidates, \<open>extract_byte_array\<close> the part up to the byte
  array.
\<close>

definition decoder_lsbs :: "image \<Rightarrow> importance_map \<Rightarrow> int \<Rightarrow> string" where
  "decoder_lsbs img importance_map threshold =
     (let pixel_importance =
            sort_decoder (scan_candidates importance_map (width img) (height img) threshold)
      in candidate_lsbs (pixels img) pixel_importance)"

definition extract_byte_array :: "image \<Rightarrow> importance_map \<Rightarrow> int \<Rightarrow> 8 word list" where
  "extract_byte_array img importance_map threshold =
     (let binary = extract_bits (decoder_lsbs img importance_map threshold) []
      in bytes_of_binary binary)"

definition decode_ai_body :: "image_file \<Rightarrow> importance_map \<Rightarrow> int \<Rightarrow> exn + pystr" where
  "decode_ai_body f importance_map threshold =
     (case contents f of
        None \<Rightarrow> Inl IOError
      | Some img \<Rightarrow>
          decode_with_fallbacks f (extract_byte_array img importance_map threshold))"

text \<open>
  The handler \<open>except Exception as e\<close> of \<open>decode_ai\<close>. Its first statement reads the local
  variable \<open>logger\<close>, which is assigned inside the \<open>try\<close> block, after the call of
  \<open>validate_image_path\<close>: when the exception was raised before that assignment, the read
  raises \<open>UnboundLocalError\<close>, which leaves \<open>decode_ai\<close>.
\<close>

definition except_handler :: "bool \<Rightarrow> image_file \<Rightarrow> exn + pystr" where
  "except_handler logger_assigned f =
     (if logger_assigned then decode_lsb f else Inl (UnboundLocalError ''logger''))"

text \<open>
  \<open>decode_ai(image_path, threshold)\<close>. The name \<open>validate_image_path\<close> is a global of the
  module \<open>ai_decoder\<close>; the first argument is what that name is bound to when the function
  runs (\<open>None\<close>: not bound, and the call raises \<open>NameError\<close> inside the \<open>try\<close> block).
\<close>

definition decode_ai ::
  "(image_file \<Rightarrow> exn + bool) option \<Rightarrow> image_file \<Rightarrow> importance_map \<Rightarrow> int \<Rightarrow> exn + pystr" where
  "decode_ai global_validate f importance_map threshold =
     (case global_validate of
        None \<Rightarrow> except_handler False f
      | Some validate \<Rightarrow>
     (case validate f of
        Inl e \<Rightarrow> except_handler False f
      | Inr _ \<Rightarrow>
     (case decode_ai_body f importance_map threshold of
        Inr s \<Rightarrow> Inr s
      | Inl e \<Rightarrow> except_handler True f)))"

text \<open>
  The file \<open>ai_decoder.py\<close> consists of the definition of \<open>decode_ai\<close> alone: it has no
  import at module level, and the imports inside the function bind \<open>Image\<close>, \<open>np\<close>, \<open>sobel\<close>,
  \<open>cv2\<close> and \<open>logging\<close> only. In the module as it is written the name \<open>validate_image_path\<close>
  is therefore not bound.
\<close>

definition ai_decoder_globals :: "(image_file \<Rightarrow> exn + bool) option" where
  "ai_decoder_globals = None"

section \<open>lsb_encoder.py\<close>

text \<open>
  The inner loop \<open>for x in range(width)\<close> of \<open>encode_lsb\<close> for one row \<open>y\<close>, on the state
  \<open>(idx, pixels)\<close>; its \<open>break\<close> ends the row only, and the outer loop goes on to the next
  row, where the same test fails again.
\<close>

fun encode_lsb_row ::
  "string \<Rightarrow> nat \<Rightarrow> nat list \<Rightarrow> nat \<times> (nat \<times> nat \<Rightarrow> pixel) \<Rightarrow> nat \<times> (nat \<times> nat \<Rightarrow> pixel)" where
  "encode_lsb_row binary_message y [] st = st"
| "encode_lsb_row binary_message y (x # xs) (idx, px) =
     (if idx < length binary_message then
        (case px (x, y) of (r, g, b) \<Rightarrow>
           encode_lsb_row binary_message y xs
             (idx + 1, px((x, y) := (set_lsb r (binary_message ! idx), g, b))))
      else (idx, px))"

definition encode_lsb_loop ::
  "string \<Rightarrow> nat \<Rightarrow> nat \<Rightarrow> (nat \<times> nat \<Rightarrow> pixel) \<Rightarrow> (nat \<times> nat \<Rightarrow> pixel)" where
  "encode_lsb_loop binary_message w h px =
     snd (fold (\<lambda>y st. encode_lsb_row binary_message y [0..<w] st) [0..<h] (0, px))"

text \<open>
  \<open>''.join(format(ord(char), '08b') for char in message) + '11111110'\<close>, the bit string of
  both uniform encoders.
\<close>

definition lsb_binary_message :: "pystr \<Rightarrow> string" where
  "lsb_binary_message message = concat (map format_08b message) @ ''11111110''"

text \<open>
  \<open>encode_lsb(image_path, message, output_path)\<close>, with the result and the pixel buffer as
  for \<open>encode_ai\<close>. \<open>utils.create_backup\<close> copies the file and leaves the buffer alone; the
  model covers the runs in which the copy succeeds.
\<close>

definition encode_lsb :: "image_file \<Rightarrow> pystr \<Rightarrow> (exn + bool) \<times> image option" where
  "encode_lsb f message =
     (case validate_image_path f of
        Inl e \<Rightarrow> (Inl e, None)
      | Inr _ \<Rightarrow>
     (case calculate_max_message_size f of
        Inl e \<Rightarrow> (Inl e, None)
      | Inr max_chars \<Rightarrow>
     if int (length message) > max_chars
     then (Inl (ValueError (MessageTooLarge max_chars)), None)
     else
     (case contents f of
        None \<Rightarrow> (Inl IOError, None)
      | Some img \<Rightarrow>
     (let binary_message = lsb_binary_message message in
      (Inr True,
       Some (img\<lparr>pixels :=
               encode_lsb_loop binary_message (width img) (height img) (pixels img)\<rparr>))))))"




section \<open>The two importance map generators\<close>




section \<open>Notions used to state the properties\<close>

text \<open>
  The 64-bit terminator of the decoder occurs in a bit sequence when some window of 64
  consecutive bits equals it; \<open>n\<close> is the position just after the window.
\<close>

definition terminator_occurs :: "string \<Rightarrow> bool" where
  "terminator_occurs bits =
     list_ex (\<lambda>n. take 64 (drop (n - 64) bits) = decoder_terminator) [64..<length bits + 1]"






text \<open>
  Two pixels have the same green and blue values, and red values that differ at most in
  the least significant bit. \<open>coords\<close> is the pixel position of a candidate.
\<close>

definition same_up_to_red_lsb :: "pixel \<Rightarrow> pixel \<Rightarrow> bool" where
  "same_up_to_red_lsb q q' =
     (case q of (r, g, b) \<Rightarrow> case q' of (r', g', b') \<Rightarrow>
        drop_bit 1 r = drop_bit 1 r' \<and> g = g' \<and> b = b')"

definition coords :: "candidate \<Rightarrow> nat \<times> nat" where
  "coords p = (fst p, fst (snd p))"

section \<open>Concrete inputs\<close>

text \<open>
  An image of eight pixels in one row whose red least significant bits spell \<open>01000001\<close>,
  the byte of the letter A. With its red bits cleared the image is of one colour, so the
  decoder's importance map is zero everywhere.
\<close>

definition image_A :: image where
  "image_A = \<lparr>width = 8, height = 1,
        pixels = (\<lambda>p. if fst p = 1 \<or> fst p = 7 then (1, 0, 0) else (0, 0, 0))\<rparr>"

definition file_A :: image_file where
  "file_A = \<lparr>path_exists = True, file_ext = ''.png'', contents = Some image_A\<rparr>"


text \<open>
  A black image of 80 pixels in one row. Its edge magnitude is zero everywhere, and so is
  its importance map; with threshold 0 every pixel is a candidate, and all scores are
  equal, so that both sort orders are the scan order. \<open>stego_hi\<close> is the file that
  \<open>encode_ai\<close> writes for the message \<open>hi\<close>.
\<close>

definition solid_80 :: image_file where
  "solid_80 = \<lparr>path_exists = True, file_ext = ''.png'',
     contents = Some \<lparr>width = 80, height = 1, pixels = (\<lambda>p. (0, 0, 0))\<rparr>\<rparr>"

definition stego_hi :: image_file where
  "stego_hi = solid_80\<lparr>contents := snd (encode_ai solid_80 (\<lambda>p. 0) [104, 105] 0)\<rparr>"

text \<open>A path that does not exist, and a file that exists but cannot be decoded.\<close>

definition missing_file :: image_file where
  "missing_file = \<lparr>path_exists = False, file_ext = ''.png'', contents = None\<rparr>"

definition corrupt_file :: image_file where
  "corrupt_file = \<lparr>path_exists = True, file_ext = ''.png'', contents = None\<rparr>"

text \<open>
  A black image of 16 pixels in one row, and the file that \<open>encode_lsb_multi_channel\<close>
  writes for the message \<open>A\<close> on the three channels.
\<close>

definition black_16 :: image_file where
  "black_16 = \<lparr>path_exists = True, file_ext = ''.png'',
     contents = Some \<lparr>width = 16, height = 1, pixels = (\<lambda>p. (0, 0, 0))\<rparr>\<rparr>"



text \<open>
  A row of eight gray pixels with the values 0, 0, 20, 40, 140, 140, 0, 60. A gray pixel
  has its own value in both grayscale conversions, and the values are even, so that
  clearing the red bits changes nothing. The horizontal differences with reflected
  borders are 0, 20, 40, 120, 100, 140, 80, 60; scaled to the range from 0 to 255 and
  truncated they give the scores of \<open>imp_row_8\<close>, which are pairwise distinct and contain
  the score 0. The image has room for the empty message only.
\<close>

definition row_8 :: image_file where
  "row_8 = \<lparr>path_exists = True, file_ext = ''.png'',
     contents = Some \<lparr>width = 8, height = 1,
        pixels = (\<lambda>p. let v = (if fst p < 8 then [0, 0, 20, 40, 140, 140, 0, 60] ! fst p else 0)
                      in (v, v, v))\<rparr>\<rparr>"

definition imp_row_8 :: importance_map where
  "imp_row_8 = (\<lambda>p. if fst p = 0 \<and> snd p < 8
                      then [0, 36, 72, 218, 182, 255, 145, 109] ! snd p else 0)"





section \<open>Text decoding in \<open>decode_ai\<close>\<close>

lemma decode_latin1_total: "decode_latin1 bs = Some (map unat bs)"
proof -
  have "unat b < 256" for b :: "8 word"
    using unsigned_less [of b, where 'a = nat] by simp
  then show ?thesis
    by (simp add: decode_latin1_def list_all_iff)
qed

lemma decode_with_fallbacks_text:
  "decode_with_fallbacks f byte_array =
     Inr (case decode_utf8 byte_array of Some s \<Rightarrow> s | None \<Rightarrow> map unat byte_array)"
  by (simp add: decode_with_fallbacks_def decode_latin1_total split: option.split)

text \<open>
  C10. Decoding as Latin-1 succeeds on every byte array. Hence the nested \<open>try\<close> of
  \<open>decode_ai\<close> never calls \<open>decode_lsb\<close>: it returns the UTF-8 decoding of the byte array
  when that is valid and the Latin-1 decoding otherwise, and so does the whole body of the
  \<open>try\<close> block once the image is loaded and the bits are extracted. When the call of
  \<open>validate_image_path\<close> resolves to the function of \<open>utils.py\<close> and succeeds, this
  string is what \<open>decode_ai\<close> returns.
\<close>

theorem decode_ai_latin1_fallback_unreachable:
  "decode_latin1 byte_array = Some (map unat byte_array) \<and>
   decode_with_fallbacks f byte_array =
     Inr (case decode_utf8 byte_array of Some s \<Rightarrow> s | None \<Rightarrow> map unat byte_array) \<and>
   decode_ai_body (f\<lparr>contents := Some img\<rparr>) importance_map threshold =
     Inr (case decode_utf8 (extract_byte_array img importance_map threshold) of
            Some s \<Rightarrow> s
          | None \<Rightarrow> map unat (extract_byte_array img importance_map threshold)) \<and>
   (validate_image_path f = Inr True \<and> contents f = Some img \<longrightarrow>
    decode_ai (Some validate_image_path) f importance_map threshold =
     Inr (case decode_utf8 (extract_byte_array img importance_map threshold) of
            Some s \<Rightarrow> s
          | None \<Rightarrow> map unat (extract_byte_array img importance_map threshold)))"
  by (simp add: decode_ai_def decode_ai_body_def decode_latin1_total decode_with_fallbacks_text)

theorem decode_ai_latin1_fallback_unreachable_witness:
  "validate_image_path file_A = Inr True \<and> contents file_A = Some image_A \<and>
   decode_ai (Some validate_image_path) file_A (\<lambda>p. 0) 0 = Inr [65]"
proof -
  have v: "validate_image_path file_A = Inr True"
    by (simp add: file_A_def validate_image_path_def supported_formats_def)
  have c: "contents file_A = Some image_A"
    by (simp add: file_A_def)
  have d: "(case decode_utf8 (extract_byte_array image_A (\<lambda>p. 0) 0) of Some s \<Rightarrow> s
            | None \<Rightarrow> map unat (extract_byte_array image_A (\<lambda>p. 0) 0)) = [65]"
    by code_simp
  show ?thesis
    using v c decode_ai_latin1_fallback_unreachable [of "[]" file_A image_A "\<lambda>p. 0" 0]
    unfolding d by blast
qed

section \<open>Framing in the importance-guided decoder\<close>


text \<open>
  As long as no window of 64 bits that ends in the part \<open>cs\<close> equals the terminator, the
  loop appends the bits of \<open>cs\<close> and goes on.
\<close>

lemma extract_bits_skip:
  "\<forall>n. 64 \<le> n \<and> length binary < n \<and> n \<le> length binary + length cs
        \<longrightarrow> take 64 (drop (n - 64) (binary @ cs)) \<noteq> decoder_terminator
   \<Longrightarrow> extract_bits (cs @ rest) binary = extract_bits rest (binary @ cs)"
proof (induction cs arbitrary: binary)
  case Nil
  then show ?case by simp
next
  case (Cons c cs)
  let ?b = "binary @ [c]"
  have stop: "\<not> (length ?b \<ge> 64 \<and> drop (length ?b - 64) ?b = decoder_terminator)"
  proof
    assume a: "length ?b \<ge> 64 \<and> drop (length ?b - 64) ?b = decoder_terminator"
    then have "64 \<le> length ?b \<and> length binary < length ?b
                 \<and> length ?b \<le> length binary + length (c # cs)"
      by simp
    then have "take 64 (drop (length ?b - 64) (binary @ c # cs)) \<noteq> decoder_terminator"
      using Cons.prems by blast
    moreover have "take 64 (drop (length ?b - 64) (binary @ c # cs)) = drop (length ?b - 64) ?b"
      using a by (simp add: Suc_diff_le)
    ultimately show False using a by simp
  qed
  have "extract_bits (cs @ rest) ?b = extract_bits rest (?b @ cs)"
  proof (rule Cons.IH, intro allI impI)
    fix n
    assume "64 \<le> n \<and> length ?b < n \<and> n \<le> length ?b + length cs"
    then have "64 \<le> n \<and> length binary < n \<and> n \<le> length binary + length (c # cs)"
      by simp
    then have "take 64 (drop (n - 64) (binary @ c # cs)) \<noteq> decoder_terminator"
      using Cons.prems by blast
    then show "take 64 (drop (n - 64) (?b @ cs)) \<noteq> decoder_terminator" by simp
  qed
  with stop show ?case by (auto simp: Let_def)
qed

lemma extract_bits_skip_unterminated:
  assumes "\<not> terminator_occurs bits"
  shows "extract_bits (bits @ rest) [] = extract_bits rest bits"
proof -
  have "\<forall>n. 64 \<le> n \<and> length ([]::string) < n \<and> n \<le> length ([]::string) + length bits
        \<longrightarrow> take 64 (drop (n - 64) ([] @ bits)) \<noteq> decoder_terminator"
    using assms by (auto simp: terminator_occurs_def list_ex_iff)
  from extract_bits_skip [OF this] show ?thesis by simp
qed

text \<open>
  C6, as the code has it. When the terminator never occurs in the red bits of the
  candidates, the unframing step of \<open>decode_ai\<close>, which is the extraction loop and the
  decoding of the bytes in its \<open>try\<close> block, does not fail: the loop ends when the
  candidates are exhausted and keeps every bit, and the block yields the text decoded
  from the complete bytes among these bits. When the call of \<open>validate_image_path\<close>
  resolves to the function of \<open>utils.py\<close> and succeeds, \<open>decode_ai\<close> returns this text.
  There is no error for a missing terminator.
\<close>

theorem unframe_without_terminator_returns_text:
  assumes "\<not> terminator_occurs (decoder_lsbs img importance_map threshold)"
  shows "extract_bits (decoder_lsbs img importance_map threshold) []
           = decoder_lsbs img importance_map threshold \<and>
         decode_ai_body (f\<lparr>contents := Some img\<rparr>) importance_map threshold =
           Inr (case decode_utf8 (bytes_of_binary (decoder_lsbs img importance_map threshold)) of
                  Some s \<Rightarrow> s
                | None \<Rightarrow> map unat (bytes_of_binary (decoder_lsbs img importance_map threshold))) \<and>
         (validate_image_path f = Inr True \<and> contents f = Some img \<longrightarrow>
          decode_ai (Some validate_image_path) f importance_map threshold =
           Inr (case decode_utf8 (bytes_of_binary (decoder_lsbs img importance_map threshold)) of
                  Some s \<Rightarrow> s
                | None \<Rightarrow> map unat (bytes_of_binary (decoder_lsbs img importance_map threshold))))"
proof -
  have "extract_bits (decoder_lsbs img importance_map threshold) []
          = decoder_lsbs img importance_map threshold"
    using extract_bits_skip_unterminated [OF assms, of "[]"] by simp
  then show ?thesis
    by (simp add: decode_ai_def decode_ai_body_def extract_byte_array_def
          decode_with_fallbacks_text)
qed

theorem unframe_without_terminator_witness:
  "\<not> terminator_occurs (decoder_lsbs image_A (\<lambda>_. 0) 0) \<and>
   extract_bits (decoder_lsbs image_A (\<lambda>_. 0) 0) [] = ''01000001'' \<and>
   decode_ai_body (file_A\<lparr>contents := Some image_A\<rparr>) (\<lambda>_. 0) 0 = Inr [65] \<and>
   validate_image_path file_A = Inr True \<and> contents file_A = Some image_A \<and>
   decode_ai (Some validate_image_path) file_A (\<lambda>_. 0) 0 = Inr [65]"
proof -
  have h: "\<not> terminator_occurs (decoder_lsbs image_A (\<lambda>_. 0) 0)"
    by code_simp
  have l: "decoder_lsbs image_A (\<lambda>_. 0) 0 = ''01000001''"
    by code_simp
  have d: "(case decode_utf8 (bytes_of_binary ''01000001'') of Some s \<Rightarrow> s
            | None \<Rightarrow> map unat (bytes_of_binary ''01000001'')) = [65]"
    by code_simp
  have v: "validate_image_path file_A = Inr True"
    by (simp add: file_A_def validate_image_path_def supported_formats_def)
  have c: "contents file_A = Some image_A"
    by (simp add: file_A_def)
  show ?thesis
    using h v c unframe_without_terminator_returns_text [OF h, of file_A]
    unfolding l d by simp
qed

text \<open>
  The claim C6 as the specification states it fails on the eight pixels of \<open>file_A\<close>: the
  terminator does not occur, and the unframing step yields the string \<open>A\<close>, which
  \<open>decode_ai\<close> returns when its call of \<open>validate_image_path\<close> resolves.
\<close>

theorem unframe_without_terminator_counterexample:
  "\<not> terminator_occurs (decoder_lsbs image_A (\<lambda>_. 0) 0) \<and>
   decode_ai_body file_A (\<lambda>_. 0) 0 = Inr [65] \<and>
   decode_ai (Some validate_image_path) file_A (\<lambda>_. 0) 0 = Inr [65]"
  by code_simp

section \<open>Terminator patterns\<close>












section \<open>The entry point \<open>decode_ai\<close>\<close>

text \<open>
  C1 at a concrete input. \<open>encode_ai\<close> accepts the message \<open>hi\<close> for the black image of
  80 pixels at threshold 0. On the file it writes, \<open>decode_ai\<close> as the module has it raises
  \<open>UnboundLocalError\<close>. With the name \<open>validate_image_path\<close> bound to the function of
  \<open>utils.py\<close> it returns \<open>h\<close>: the encoder wrote 63 bits set to 1 and a bit set to 0, the
  decoder finds its 64 bits set to 1 one position early, made of the last message bit and
  the 63 bits, and drops the incomplete second byte.
\<close>

theorem roundtrip_hi_fails:
  "fst (encode_ai solid_80 (\<lambda>p. 0) [104, 105] 0) = Inr True \<and>
   decode_ai ai_decoder_globals stego_hi (\<lambda>p. 0) 0 = Inl (UnboundLocalError ''logger'') \<and>
   decode_ai (Some validate_image_path) stego_hi (\<lambda>p. 0) 0 = Inr [104]"
  by code_simp

lemma validate_image_path_cases:
  "validate_image_path f = Inr True \<or> (\<exists>e. validate_image_path f = Inl e)"
  by (simp add: validate_image_path_def)

lemma decode_lsb_error:
  assumes "validate_image_path f \<noteq> Inr True \<or> contents f = None"
  shows "\<exists>e. decode_lsb f = Inl e"
  using assms validate_image_path_cases [of f]
  by (auto simp: decode_lsb_def split: sum.splits option.splits)

text \<open>
  C7, as the code has it. Whether the global name \<open>validate_image_path\<close> is unbound or bound
  to the function of \<open>utils.py\<close>: for a path that does not exist, has no supported
  extension or cannot be decoded, an exception leaves \<open>decode_ai\<close>, and \<open>decode_lsb\<close>, its
  only fallback, raises as well. No failure is turned into the empty string.
\<close>

theorem decode_ai_propagates_errors:
  assumes "global_validate = None \<or> global_validate = Some validate_image_path"
    and "validate_image_path f \<noteq> Inr True \<or> contents f = None"
  shows "(\<exists>e. decode_ai global_validate f importance_map threshold = Inl e) \<and>
         (\<exists>e. decode_lsb f = Inl e)"
proof -
  from decode_lsb_error [OF assms(2)] obtain e where e: "decode_lsb f = Inl e" ..
  have "\<exists>e. decode_ai global_validate f importance_map threshold = Inl e"
    using assms validate_image_path_cases [of f] e
    by (auto simp: decode_ai_def except_handler_def decode_ai_body_def
             split: sum.splits option.splits)
  with e show ?thesis by blast
qed

theorem decode_ai_propagates_errors_witness:
  "contents corrupt_file = None \<and>
   (\<exists>e. decode_ai (Some validate_image_path) corrupt_file (\<lambda>p. 0) 100 = Inl e) \<and>
   (\<exists>e. decode_lsb corrupt_file = Inl e)"
proof -
  have g: "Some validate_image_path = None \<or> Some validate_image_path = Some validate_image_path"
    by simp
  have b: "validate_image_path corrupt_file \<noteq> Inr True \<or> contents corrupt_file = None"
    by (simp add: corrupt_file_def)
  have c: "contents corrupt_file = None"
    by (simp add: corrupt_file_def)
  show ?thesis
    using c decode_ai_propagates_errors [OF g b, of "\<lambda>p. 0" 100] by blast
qed

text \<open>
  The claim C7 as the specification states it fails for a path that does not exist:
  \<open>decode_ai\<close> raises, with the global name unbound as in the module and with it bound. For
  a file that cannot be decoded the error of \<open>decode_lsb\<close> reaches the caller.
\<close>

theorem decode_ai_raises_counterexample:
  "decode_ai ai_decoder_globals missing_file (\<lambda>p. 0) 100 = Inl (UnboundLocalError ''logger'') \<and>
   decode_ai (Some validate_image_path) missing_file (\<lambda>p. 0) 100
     = Inl (UnboundLocalError ''logger'') \<and>
   decode_ai (Some validate_image_path) corrupt_file (\<lambda>p. 0) 100 = Inl IOError \<and>
   decode_lsb missing_file = Inl FileNotFoundError"
  by code_simp

section \<open>The strategies of \<open>decode_ai\<close>\<close>







section \<open>The two sort orders\<close>

text \<open>
  Negation of a \<open>uint8\<close> score reverses the order of the scores other than 0. Hence, when
  no candidate has the score 0 and the scores are pairwise distinct, the encoder's list
  is sorted by the decoder's key, and the two sorted lists are equal. Every threshold of
  at least 1 excludes the score 0.
\<close>

lemma uint_neg_8:
  fixes a :: "8 word"
  assumes "a \<noteq> 0"
  shows "uint (- a) = 256 - uint a"
proof -
  have "uint a \<noteq> 0"
    using assms by (simp add: uint_0_iff)
  then have pos: "0 < uint a"
    using uint_ge_0 [of a] by linarith
  have lt: "uint a < 256"
    using uint_lt2p [of a] by simp
  have "uint (- a) = (- uint a) mod 256"
    by (simp only: uint_word_ariths(4)) simp
  also have "\<dots> = (256 - uint a) mod 256"
    by (metis diff_minus_eq_add minus_diff_eq mod_add_self1 uminus_add_conv_diff add.commute)
  also have "\<dots> = 256 - uint a"
    using pos lt by (intro mod_pos_pos_trivial) linarith+
  finally show ?thesis .
qed

lemma neg_less_antimono:
  fixes a b :: "8 word"
  assumes "a \<noteq> 0" and "a < b"
  shows "- b < - a"
proof -
  have ab: "uint a < uint b" using assms(2) by (simp only: word_less_def)
  have "b \<noteq> 0" using assms(2) by auto
  from uint_neg_8 [OF assms(1)] uint_neg_8 [OF this] ab
  have "uint (- b) < uint (- a)" by linarith
  then show ?thesis by (simp only: word_less_def)
qed

lemma inj_decoder_key: "inj (\<lambda>p :: candidate. (- snd (snd p), fst p, fst (snd p)))"
proof (rule injI)
  fix p q :: candidate
  assume e: "(- snd (snd p), fst p, fst (snd p)) = (- snd (snd q), fst q, fst (snd q))"
  obtain x y s where p: "p = (x, y, s)" by (cases p) auto
  obtain x' y' s' where q: "q = (x', y', s')" by (cases q) auto
  from e have "- s = - s'" "x = x'" "y = y'"
    unfolding p q by simp_all
  then show "p = q" unfolding p q by simp
qed

lemma decoder_key_antimono:
  fixes p q :: candidate
  assumes "snd (snd p) \<noteq> 0" and "snd (snd p) < snd (snd q)"
  shows "(- snd (snd q), fst q, fst (snd q)) \<le> (- snd (snd p), fst p, fst (snd p))"
proof -
  have "- snd (snd q) < - snd (snd p)"
    using assms by (rule neg_less_antimono)
  then show ?thesis
    by (simp add: less_eq_prod_def)
qed

lemma sorted_encoder_by_decoder_key:
  assumes d: "distinct (map (\<lambda>p. snd (snd p)) cs)"
    and nz: "\<forall>p \<in> set cs. snd (snd p) \<noteq> 0"
  shows "sorted (map (\<lambda>p. (- snd (snd p), fst p, fst (snd p))) (sort_encoder cs))"
proof -
  let ?ke = "\<lambda>p :: candidate. snd (snd p)"
  let ?kd = "\<lambda>p :: candidate. (- snd (snd p), fst p, fst (snd p))"
  let ?S = "sort_key ?ke (rev cs)"
  have dc: "distinct cs" and inj_ke: "inj_on ?ke (set cs)"
    using d by (simp_all only: distinct_map)
  have "sorted (map ?ke ?S)" by (rule sorted_sort_key)
  moreover have "distinct (map ?ke ?S)"
    using dc inj_ke by (simp only: distinct_map distinct_sort set_sort distinct_rev set_rev simp_thms)
  ultimately have "sorted_wrt (<) (map ?ke ?S)"
    by (simp only: strict_sorted_iff simp_thms)
  then have up: "sorted_wrt (\<lambda>p q. ?ke p < ?ke q) ?S"
    by (simp only: sorted_wrt_map)
  have "sorted_wrt (\<lambda>p q. ?kd q \<le> ?kd p) ?S"
  proof (rule sorted_wrt_mono_rel [OF _ up])
    fix p q
    assume "p \<in> set ?S" and "q \<in> set ?S" and l: "?ke p < ?ke q"
    then have "p \<in> set cs" by (simp only: set_sort set_rev)
    with nz have "?ke p \<noteq> 0" by blast
    from decoder_key_antimono [OF this l] show "?kd q \<le> ?kd p" .
  qed
  then have "sorted_wrt (\<lambda>a b. a \<le> b) (map ?kd (rev ?S))"
    by (simp only: sorted_wrt_map sorted_wrt_rev)
  then show ?thesis
    by (simp only: sort_encoder_def)
qed

lemma sort_orders_agree:
  assumes d: "distinct (map (\<lambda>p. snd (snd p)) cs)"
    and nz: "\<forall>p \<in> set cs. snd (snd p) \<noteq> 0"
  shows "sort_encoder cs = sort_decoder cs"
proof -
  let ?kd = "\<lambda>p :: candidate. (- snd (snd p), fst p, fst (snd p))"
  have dc: "distinct cs"
    using d by (simp only: distinct_map)
  have ik: "inj_on ?kd A" for A
    using inj_decoder_key by (rule inj_on_subset) simp
  have se: "sorted (map ?kd (sort_encoder cs))"
    using d nz by (rule sorted_encoder_by_decoder_key)
  have de: "distinct (map ?kd (sort_encoder cs))"
    using dc ik by (simp only: distinct_map sort_encoder_def distinct_rev distinct_sort simp_thms)
  have sd: "sorted (map ?kd (sort_decoder cs))"
    unfolding sort_decoder_def by (rule sorted_sort_key)
  have dd: "distinct (map ?kd (sort_decoder cs))"
    using dc ik by (simp only: distinct_map sort_decoder_def distinct_sort simp_thms)
  have "set (map ?kd (sort_encoder cs)) = set (map ?kd (sort_decoder cs))"
    by (simp only: set_map sort_encoder_def sort_decoder_def set_rev set_sort)
  from sorted_distinct_set_unique [OF se de sd dd this]
  have "map ?kd (sort_encoder cs) = map ?kd (sort_decoder cs)" .
  then show ?thesis
    by (simp only: inj_map_eq_map [OF inj_decoder_key])
qed

lemma scan_candidates_score:
  "p \<in> set (scan_candidates importance_map w h threshold) \<Longrightarrow> threshold \<le> uint (snd (snd p))"
  by (auto simp: scan_candidates_def split: if_splits)

lemma sort_orders_agree_above_zero:
  assumes "1 \<le> threshold"
    and "distinct (map (\<lambda>p. snd (snd p)) (scan_candidates importance_map w h threshold))"
  shows "sort_encoder (scan_candidates importance_map w h threshold)
         = sort_decoder (scan_candidates importance_map w h threshold)"
proof (rule sort_orders_agree [OF assms(2)], rule ballI)
  fix p
  assume "p \<in> set (scan_candidates importance_map w h threshold)"
  from scan_candidates_score [OF this] assms(1) have "0 < uint (snd (snd p))" by linarith
  then show "snd (snd p) \<noteq> 0" by auto
qed

text \<open>
  A candidate of score 0 among candidates of pairwise distinct scores is the last of the
  encoder's sequence and the first of the decoder's: the encoder sorts by descending
  score, and the decoder's key is the negated \<open>uint8\<close> score, which is 0 for the score 0
  and positive for every other score.
\<close>

lemma hd_sorted_least:
  fixes k :: "'a \<Rightarrow> 'b :: linorder"
  assumes s: "sorted (map k xs)" and m: "x \<in> set xs"
    and l: "\<And>y. y \<in> set xs \<Longrightarrow> y \<noteq> x \<Longrightarrow> k x < k y"
  shows "hd xs = x"
proof (cases xs)
  case Nil
  with m show ?thesis by simp
next
  case (Cons a as)
  show ?thesis
  proof (rule ccontr)
    assume n: "hd xs \<noteq> x"
    with Cons have ax: "a \<noteq> x" by simp
    have "a \<in> set xs" using Cons by simp
    from l [OF this ax] have "k x < k a" .
    moreover have "x \<in> set as" using m Cons ax by auto
    then have "k a \<le> k x" using s Cons by auto
    ultimately show False by simp
  qed
qed

lemma zero_score_unique:
  fixes p0 q :: candidate
  assumes d: "distinct (map (\<lambda>p. snd (snd p)) cs)"
    and p0: "p0 \<in> set cs" and z: "snd (snd p0) = 0"
    and q: "q \<in> set cs" and n: "q \<noteq> p0"
  shows "snd (snd q) \<noteq> 0"
proof
  assume "snd (snd q) = 0"
  with z have "snd (snd q) = snd (snd p0)" by simp
  moreover have "inj_on (\<lambda>p. snd (snd p)) (set cs)"
    using d by (simp only: distinct_map)
  ultimately have "q = p0" using p0 q by (auto dest: inj_onD)
  with n show False by simp
qed

lemma hd_sort_decoder_zero:
  fixes p0 :: candidate
  assumes d: "distinct (map (\<lambda>p. snd (snd p)) cs)"
    and p0: "p0 \<in> set cs" and z: "snd (snd p0) = 0"
  shows "hd (sort_decoder cs) = p0"
proof (rule hd_sorted_least [where k = "\<lambda>p. (- snd (snd p), fst p, fst (snd p))"])
  show "sorted (map (\<lambda>p. (- snd (snd p), fst p, fst (snd p))) (sort_decoder cs))"
    unfolding sort_decoder_def by (rule sorted_sort_key)
  show "p0 \<in> set (sort_decoder cs)"
    using p0 by (simp only: sort_decoder_def set_sort)
  fix q :: candidate
  assume "q \<in> set (sort_decoder cs)" and n: "q \<noteq> p0"
  then have q: "q \<in> set cs" by (simp only: sort_decoder_def set_sort)
  from zero_score_unique [OF d p0 z q n] have "snd (snd q) \<noteq> 0" .
  then have "- snd (snd q) \<noteq> 0" by simp
  then have "0 < - snd (snd q)" by (simp only: word_gt_0)
  then show "(- snd (snd p0), fst p0, fst (snd p0)) < (- snd (snd q), fst q, fst (snd q))"
    using z by (simp add: less_prod_def)
qed

lemma last_sort_encoder_zero:
  fixes p0 :: candidate
  assumes d: "distinct (map (\<lambda>p. snd (snd p)) cs)"
    and p0: "p0 \<in> set cs" and z: "snd (snd p0) = 0"
  shows "last (sort_encoder cs) = p0"
proof -
  let ?S = "sort_key (\<lambda>p :: candidate. snd (snd p)) (rev cs)"
  have "hd ?S = p0"
  proof (rule hd_sorted_least [where k = "\<lambda>p. snd (snd p)"])
    show "sorted (map (\<lambda>p. snd (snd p)) ?S)" by (rule sorted_sort_key)
    show "p0 \<in> set ?S" using p0 by (simp only: set_sort set_rev)
    fix q :: candidate
    assume "q \<in> set ?S" and n: "q \<noteq> p0"
    then have q: "q \<in> set cs" by (simp only: set_sort set_rev)
    from zero_score_unique [OF d p0 z q n] have "snd (snd q) \<noteq> 0" .
    then show "snd (snd p0) < snd (snd q)" using z by (simp only: word_gt_0)
  qed
  then show ?thesis
    by (simp only: sort_encoder_def last_rev)
qed

lemma sort_orders_differ_at_zero:
  fixes p0 :: candidate
  assumes d: "distinct (map (\<lambda>p. snd (snd p)) cs)"
    and p0: "p0 \<in> set cs" and z: "snd (snd p0) = 0" and l: "2 \<le> length cs"
  shows "sort_encoder cs \<noteq> sort_decoder cs"
proof
  assume e: "sort_encoder cs = sort_decoder cs"
  let ?L = "sort_decoder cs"
  have dc: "distinct cs" using d by (simp only: distinct_map)
  have dl: "distinct ?L" using dc by (simp only: sort_decoder_def distinct_sort)
  have n: "length ?L = length cs" by (simp only: sort_decoder_def length_sort)
  then have ne: "?L \<noteq> []" using l by auto
  have "hd ?L = last ?L"
    using hd_sort_decoder_zero [OF d p0 z] last_sort_encoder_zero [OF d p0 z] e by simp
  then have "?L ! 0 = ?L ! (length ?L - 1)"
    using ne by (simp add: hd_conv_nth last_conv_nth)
  moreover have "0 < length ?L" "length ?L - 1 < length ?L"
    using l n by linarith+
  ultimately have "0 = length ?L - 1"
    using dl by (simp only: nth_eq_iff_index_eq)
  then show False using l n by linarith
qed

lemma sort_orders_short:
  assumes "length cs \<le> 1"
  shows "sort_encoder cs = sort_decoder cs"
proof (cases cs)
  case Nil
  then show ?thesis by (simp add: sort_encoder_def sort_decoder_def)
next
  case (Cons a as)
  with assms have "as = []" by simp
  with Cons show ?thesis by (simp add: sort_encoder_def sort_decoder_def)
qed

text \<open>
  Candidates of equal score: on a black image of three by three pixels every score is 0;
  the encoder keeps the scan order, row by row, and the decoder orders by \<open>x\<close> first.
\<close>

lemma sort_orders_differ_on_ties:
  "sort_encoder (scan_candidates (\<lambda>p. 0) 3 3 0)
     = [(0, 0, 0), (1, 0, 0), (2, 0, 0), (0, 1, 0), (1, 1, 0), (2, 1, 0), (0, 2, 0), (1, 2, 0),
        (2, 2, 0)] \<and>
   sort_decoder (scan_candidates (\<lambda>p. 0) 3 3 0)
     = [(0, 0, 0), (0, 1, 0), (0, 2, 0), (1, 0, 0), (1, 1, 0), (1, 2, 0), (2, 0, 0), (2, 1, 0),
        (2, 2, 0)]"
  by code_simp

text \<open>
  C3, as the code has it. For candidates of pairwise distinct scores the encoder's and the
  decoder's sequences are equal exactly when there is at most one candidate or no
  candidate has the score 0. A candidate of score 0 is the last of the encoder's sequence
  and the first of the decoder's. On the row of eight pixels, at threshold 0, the scores
  are pairwise distinct and the pixel at \<open>x = 0\<close> has the score 0: \<open>encode_ai\<close> passes the
  test on the message length, sorts, and ends in the test on the number of candidates;
  its sequence ends with that pixel and the decoder's begins with it.
\<close>

theorem sort_orders_agree_iff_no_zero_score:
  assumes "distinct (map (\<lambda>p. snd (snd p)) cs)"
  shows "(sort_encoder cs = sort_decoder cs)
           = (length cs \<le> 1 \<or> (\<forall>p \<in> set cs. snd (snd p) \<noteq> 0)) \<and>
         (\<forall>p0 \<in> set cs. snd (snd p0) = 0 \<longrightarrow>
            last (sort_encoder cs) = p0 \<and> hd (sort_decoder cs) = p0)"
proof (intro conjI ballI impI iffI)
  assume e: "sort_encoder cs = sort_decoder cs"
  show "length cs \<le> 1 \<or> (\<forall>p \<in> set cs. snd (snd p) \<noteq> 0)"
  proof (rule ccontr)
    assume "\<not> (length cs \<le> 1 \<or> (\<forall>p \<in> set cs. snd (snd p) \<noteq> 0))"
    then obtain p0 where "p0 \<in> set cs" "snd (snd p0) = 0" "2 \<le> length cs" by auto
    from sort_orders_differ_at_zero [OF assms this]
    show False using e by simp
  qed
next
  assume "length cs \<le> 1 \<or> (\<forall>p \<in> set cs. snd (snd p) \<noteq> 0)"
  then show "sort_encoder cs = sort_decoder cs"
    using sort_orders_short [of cs] sort_orders_agree [OF assms] by blast
next
  fix p0 assume "p0 \<in> set cs" "snd (snd p0) = 0"
  then show "last (sort_encoder cs) = p0" "hd (sort_decoder cs) = p0"
    using last_sort_encoder_zero [OF assms] hd_sort_decoder_zero [OF assms] by blast+
qed

theorem sort_orders_agree_iff_no_zero_score_witness:
  "fst (encode_ai row_8 imp_row_8 [] 0) = Inl (ValueError (NotEnoughPixels 64 8)) \<and>
   scan_candidates imp_row_8 8 1 0
     = [(0, 0, 0), (1, 0, 36), (2, 0, 72), (3, 0, 218), (4, 0, 182), (5, 0, 255), (6, 0, 145),
        (7, 0, 109)] \<and>
   distinct (map (\<lambda>p. snd (snd p)) (scan_candidates imp_row_8 8 1 0)) \<and>
   sort_encoder (scan_candidates imp_row_8 8 1 0)
     = [(5, 0, 255), (3, 0, 218), (4, 0, 182), (6, 0, 145), (7, 0, 109), (2, 0, 72), (1, 0, 36),
        (0, 0, 0)] \<and>
   sort_decoder (scan_candidates imp_row_8 8 1 0)
     = [(0, 0, 0), (5, 0, 255), (3, 0, 218), (4, 0, 182), (6, 0, 145), (7, 0, 109), (2, 0, 72),
        (1, 0, 36)] \<and>
   sort_encoder (scan_candidates imp_row_8 8 1 0)
     \<noteq> sort_decoder (scan_candidates imp_row_8 8 1 0)"
proof -
  have a: "fst (encode_ai row_8 imp_row_8 [] 0) = Inl (ValueError (NotEnoughPixels 64 8))"
    by code_simp
  have b: "scan_candidates imp_row_8 8 1 0
     = [(0, 0, 0), (1, 0, 36), (2, 0, 72), (3, 0, 218), (4, 0, 182), (5, 0, 255), (6, 0, 145),
        (7, 0, 109)]"
    by code_simp
  have c: "distinct (map (\<lambda>p. snd (snd p)) (scan_candidates imp_row_8 8 1 0))"
    by code_simp
  have d: "sort_encoder (scan_candidates imp_row_8 8 1 0)
     = [(5, 0, 255), (3, 0, 218), (4, 0, 182), (6, 0, 145), (7, 0, 109), (2, 0, 72), (1, 0, 36),
        (0, 0, 0)]"
    by code_simp
  have e: "sort_decoder (scan_candidates imp_row_8 8 1 0)
     = [(0, 0, 0), (5, 0, 255), (3, 0, 218), (4, 0, 182), (6, 0, 145), (7, 0, 109), (2, 0, 72),
        (1, 0, 36)]"
    by code_simp
  have f: "\<not> (length (scan_candidates imp_row_8 8 1 0) \<le> 1 \<or>
              (\<forall>p \<in> set (scan_candidates imp_row_8 8 1 0). snd (snd p) \<noteq> 0))"
    unfolding b by simp
  from sort_orders_agree_iff_no_zero_score [OF c] f
  have "sort_encoder (scan_candidates imp_row_8 8 1 0)
          \<noteq> sort_decoder (scan_candidates imp_row_8 8 1 0)"
    by blast
  with a b c d e show ?thesis by blast
qed

section \<open>The capacity check of \<open>encode_ai\<close>\<close>

lemma length_concat_map_le:
  "(\<And>x. length (f x) \<le> k) \<Longrightarrow> length (concat (map f xs)) \<le> length xs * k"
proof (induction xs)
  case Nil
  then show ?case by simp
next
  case (Cons x xs)
  have "length (f x) \<le> k" by (rule Cons.prems)
  moreover have "length (concat (map f xs)) \<le> length xs * k"
    by (rule Cons.IH) (rule Cons.prems)
  ultimately show ?case by simp
qed

lemma length_scan_candidates:
  "length (scan_candidates importance_map w h threshold) \<le> w * h"
proof -
  let ?cell = "\<lambda>y x. if threshold \<le> uint (importance_map (y, x))
                      then [(x, y, importance_map (y, x))] else []"
  have row: "length (concat (map (?cell y) [0..<w])) \<le> w" for y
    using length_concat_map_le [of "?cell y" 1 "[0..<w]"] by simp
  have "length (concat (map (\<lambda>y. concat (map (?cell y) [0..<w])) [0..<h])) \<le> length [0..<h] * w"
    by (rule length_concat_map_le) (rule row)
  then show ?thesis by (simp add: scan_candidates_def mult.commute)
qed

lemma length_bin_digits: "n < 2 ^ Suc k \<Longrightarrow> length (bin_digits n) \<le> Suc k"
proof (induction k arbitrary: n)
  case 0
  then show ?case by (simp add: bin_digits.simps)
next
  case (Suc k)
  show ?case
  proof (cases "n < 2")
    case True
    then show ?thesis by (simp add: bin_digits.simps)
  next
    case False
    have "n div 2 < 2 ^ Suc k" using Suc.prems by simp
    from Suc.IH [OF this] show ?thesis
      using False by (subst bin_digits.simps) simp
  qed
qed

lemma length_bin_digits_pos: "0 < length (bin_digits n)"
  by (subst bin_digits.simps) simp

lemma length_format_08b_byte: "length (format_08b (unat (byte :: 8 word))) = 8"
proof -
  have "unat byte < 2 ^ Suc 7"
    using unsigned_less [of byte, where 'a = nat] by simp
  from length_bin_digits [OF this] show ?thesis
    by (simp add: format_08b_def Let_def)
qed

lemma length_message_bits: "length (message_bits message_bytes) = 8 * length message_bytes"
  by (induction message_bytes) (simp_all add: message_bits_def length_format_08b_byte)

lemma utf8_char_nonempty: "utf8_char c = Some bs \<Longrightarrow> 1 \<le> length bs"
  by (auto simp: utf8_char_def split: if_splits)

lemma length_encode_utf8: "encode_utf8 message = Inr message_bytes \<Longrightarrow> length message \<le> length message_bytes"
proof (induction message arbitrary: message_bytes)
  case Nil
  then show ?case by simp
next
  case (Cons c cs)
  from Cons.prems obtain bs rest where c: "utf8_char c = Some bs"
    and r: "encode_utf8 cs = Inr rest" and m: "message_bytes = bs @ rest"
    by (auto split: option.splits sum.splits)
  from Cons.IH [OF r] utf8_char_nonempty [OF c] show ?case by (simp add: m)
qed

lemma length_encoder_terminator: "length encoder_terminator = 64"
  by (simp add: encoder_terminator_def)

lemma length_sort_encoder: "length (sort_encoder cs) = length cs"
  by (simp add: sort_encoder_def)

lemma encode_ai_rejects:
  assumes "validate_image_path f = Inr True" and "contents f = Some img"
    and "encode_utf8 message = Inr message_bytes"
    and "length (message_bits message_bytes @ encoder_terminator)
           > length (scan_candidates importance_map (width img) (height img) threshold)"
  shows "encode_ai f importance_map message threshold
        = (Inl (ValueError (MessageTooLarge ((int (width img) * int (height img) - 8) div 8))),
           None)
      \<or> encode_ai f importance_map message threshold
        = (Inl (ValueError (NotEnoughPixels
              (length (message_bits message_bytes @ encoder_terminator))
              (length (scan_candidates importance_map (width img) (height img) threshold)))),
           Some img)"
proof -
  have "calculate_max_message_size f
          = Inr ((int (width img) * int (height img) - 8) div 8)"
    using assms(2) by (simp add: calculate_max_message_size_def)
  then show ?thesis
    using assms by (simp add: encode_ai_def Let_def length_sort_encoder)
qed

lemma encode_ai_accepts:
  assumes "validate_image_path f = Inr True" and "contents f = Some img"
    and "encode_utf8 message = Inr message_bytes"
    and fit: "length (message_bits message_bytes @ encoder_terminator)
           \<le> length (scan_candidates importance_map (width img) (height img) threshold)"
  shows "encode_ai f importance_map message threshold
        = (Inr True,
           Some (img\<lparr>pixels := write_bits
              (sort_encoder (scan_candidates importance_map (width img) (height img) threshold))
              (message_bits message_bytes @ encoder_terminator) (pixels img)\<rparr>))"
proof -
  let ?cands = "scan_candidates importance_map (width img) (height img) threshold"
  let ?bm = "message_bits message_bytes @ encoder_terminator"
  let ?max = "(int (width img) * int (height img) - 8) div 8"
  have m: "calculate_max_message_size f = Inr ?max"
    using assms(2) by (simp add: calculate_max_message_size_def)
  have "8 * length message + 64 \<le> length ?bm"
    using length_encode_utf8 [OF assms(3)]
    by (simp add: length_message_bits length_encoder_terminator)
  also have "\<dots> \<le> width img * height img"
    using fit length_scan_candidates [of importance_map "width img" "height img" threshold]
    by simp
  finally have "8 * int (length message) + 64 \<le> int (width img) * int (height img)"
    by (metis (mono_tags) of_nat_le_iff of_nat_add of_nat_mult of_nat_numeral)
  then have "int (length message) \<le> ?max" by linarith
  then show ?thesis
    using assms m by (simp add: encode_ai_def Let_def length_sort_encoder)
qed

text \<open>
  C4. For a path that validates, an image that loads and a message that UTF-8 encodes,
  \<open>encode_ai\<close> succeeds exactly when the framed bit string is not longer than the list of
  candidates, that is, of the pixels whose score reaches the threshold. When the bit string
  is longer the call ends with a \<open>ValueError\<close>, raised by the test on the message length or
  by the test on the number of candidates, and the pixel buffer is not opened yet or is
  the image as loaded. A message that fits the candidates always passes the test against
  the size of the whole image, so that test never decides.
\<close>

theorem encode_ai_capacity_check:
  assumes "validate_image_path f = Inr True" and "contents f = Some img"
    and "encode_utf8 message = Inr message_bytes"
  shows
    "(length (message_bits message_bytes @ encoder_terminator)
        > length (scan_candidates importance_map (width img) (height img) threshold) \<longrightarrow>
      encode_ai f importance_map message threshold
        = (Inl (ValueError (MessageTooLarge ((int (width img) * int (height img) - 8) div 8))),
           None)
      \<or> encode_ai f importance_map message threshold
        = (Inl (ValueError (NotEnoughPixels
              (length (message_bits message_bytes @ encoder_terminator))
              (length (scan_candidates importance_map (width img) (height img) threshold)))),
           Some img)) \<and>
     (length (message_bits message_bytes @ encoder_terminator)
        \<le> length (scan_candidates importance_map (width img) (height img) threshold) \<longrightarrow>
      encode_ai f importance_map message threshold
        = (Inr True,
           Some (img\<lparr>pixels := write_bits
              (sort_encoder (scan_candidates importance_map (width img) (height img) threshold))
              (message_bits message_bytes @ encoder_terminator) (pixels img)\<rparr>)))"
  using encode_ai_rejects [OF assms] encode_ai_accepts [OF assms] by blast

theorem encode_ai_capacity_check_witness:
  "length (scan_candidates (\<lambda>p. 0) 80 1 1) < length (message_bits [104, 105] @ encoder_terminator) \<and>
   (\<exists>ve b. encode_ai solid_80 (\<lambda>p. 0) [104, 105] 1 = (Inl (ValueError ve), b)) \<and>
   length (message_bits [104, 105] @ encoder_terminator) \<le> length (scan_candidates (\<lambda>p. 0) 80 1 0) \<and>
   fst (encode_ai solid_80 (\<lambda>p. 0) [104, 105] 0) = Inr True"
proof -
  let ?img = "\<lparr>width = 80, height = 1, pixels = (\<lambda>p. (0, 0, 0))\<rparr> :: image"
  have v: "validate_image_path solid_80 = Inr True"
    by (simp add: solid_80_def validate_image_path_def supported_formats_def)
  have c: "contents solid_80 = Some ?img"
    by (simp add: solid_80_def)
  have u: "encode_utf8 [104, 105] = Inr [104, 105]"
    by (simp add: utf8_char_def)
  have big: "length (scan_candidates (\<lambda>p. 0) 80 1 1)
               < length (message_bits [104, 105] @ encoder_terminator)"
    by code_simp
  have fit: "length (message_bits [104, 105] @ encoder_terminator)
               \<le> length (scan_candidates (\<lambda>p. 0) 80 1 0)"
    by code_simp
  have "\<exists>ve b. encode_ai solid_80 (\<lambda>p. 0) [104, 105] 1 = (Inl (ValueError ve), b)"
    using big encode_ai_capacity_check [OF v c u, of "\<lambda>p. 0" 1] by auto
  moreover have "fst (encode_ai solid_80 (\<lambda>p. 0) [104, 105] 0) = Inr True"
    using fit encode_ai_capacity_check [OF v c u, of "\<lambda>p. 0" 0] by simp
  ultimately show ?thesis using big fit by blast
qed

section \<open>What the single-channel encoders change\<close>

lemma drop_bit_set_lsb: "drop_bit 1 (set_lsb r c) = drop_bit 1 r"
proof (rule bit_eqI)
  fix n
  have "bit (set_lsb r c) (Suc n) = bit r (Suc n)"
    by (auto simp add: set_lsb_def int_of_bit_def bit_or_iff bit_and_iff bit_not_iff bit_1_iff
      dest: bit_imp_le_length)
  then show "bit (drop_bit 1 (set_lsb r c)) n = bit (drop_bit 1 r) n"
    by (simp add: bit_drop_bit_eq)
qed

lemma same_up_to_red_lsb_refl: "same_up_to_red_lsb q q"
  by (simp add: same_up_to_red_lsb_def split: prod.split)

lemma same_up_to_red_lsb_trans:
  "same_up_to_red_lsb q q' \<Longrightarrow> same_up_to_red_lsb q' q'' \<Longrightarrow> same_up_to_red_lsb q q''"
  by (auto simp: same_up_to_red_lsb_def split: prod.splits)

lemma same_up_to_red_lsb_set: "same_up_to_red_lsb (r, g, b) (set_lsb r c, g, b)"
  using drop_bit_set_lsb [of r c] by (simp add: same_up_to_red_lsb_def)

lemma write_bit_frame: "same_up_to_red_lsb (px p) (write_bit cands ib px p)"
  by (auto simp: write_bit_def same_up_to_red_lsb_refl same_up_to_red_lsb_set
           split: prod.splits)

lemma write_bit_local:
  "write_bit cands ib px p \<noteq> px p \<Longrightarrow> fst ib < length cands \<and> coords (cands ! fst ib) = p"
  by (auto simp: write_bit_def coords_def split: prod.splits if_splits)

lemma fold_write_bit_frame: "same_up_to_red_lsb (px p) (fold (write_bit cands) ibs px p)"
proof (induction ibs arbitrary: px)
  case Nil
  show ?case by (simp add: same_up_to_red_lsb_refl)
next
  case (Cons ib ibs)
  have "same_up_to_red_lsb (px p) (write_bit cands ib px p)"
    by (rule write_bit_frame)
  moreover have "same_up_to_red_lsb (write_bit cands ib px p)
                   (fold (write_bit cands) ibs (write_bit cands ib px) p)"
    by (rule Cons.IH)
  ultimately have "same_up_to_red_lsb (px p)
                     (fold (write_bit cands) ibs (write_bit cands ib px) p)"
    by (rule same_up_to_red_lsb_trans)
  then show ?case by simp
qed

lemma fold_write_bit_local:
  "fold (write_bit cands) ibs px p \<noteq> px p
   \<Longrightarrow> \<exists>ib \<in> set ibs. fst ib < length cands \<and> coords (cands ! fst ib) = p"
proof (induction ibs arbitrary: px)
  case Nil
  then show ?case by simp
next
  case (Cons ib ibs)
  show ?case
  proof (cases "write_bit cands ib px p = px p")
    case True
    with Cons.prems have "fold (write_bit cands) ibs (write_bit cands ib px) p
                            \<noteq> write_bit cands ib px p"
      by simp
    from Cons.IH [OF this] show ?thesis by auto
  next
    case False
    from write_bit_local [OF this] show ?thesis by auto
  qed
qed

lemma write_bits_frame: "same_up_to_red_lsb (px p) (write_bits cands bm px p)"
  unfolding write_bits_def by (rule fold_write_bit_frame)

lemma write_bits_local:
  assumes "write_bits cands bm px p \<noteq> px p"
  shows "p \<in> coords ` set (take (length bm) cands)"
proof -
  from fold_write_bit_local [OF assms [unfolded write_bits_def]]
  obtain ib where ib: "ib \<in> set (enumerate 0 bm)" "fst ib < length cands"
    "coords (cands ! fst ib) = p"
    by blast
  from ib(1) have "fst ib < length bm"
    by (simp add: in_set_enumerate_eq)
  with ib(2) have "cands ! fst ib \<in> set (take (length bm) cands)"
    by (metis length_take min_less_iff_conj nth_mem nth_take)
  with ib(3) show ?thesis by blast
qed

lemma encode_lsb_row_frame:
  "same_up_to_red_lsb (px p) (snd (encode_lsb_row bm y xs (idx, px)) p)"
proof (induction xs arbitrary: idx px)
  case Nil
  show ?case by (simp add: same_up_to_red_lsb_refl)
next
  case (Cons x xs)
  show ?case
  proof (cases "idx < length bm")
    case False
    then show ?thesis by (simp add: same_up_to_red_lsb_refl)
  next
    case True
    obtain r g b where q: "px (x, y) = (r, g, b)" by (cases "px (x, y)") auto
    let ?px = "px((x, y) := (set_lsb r (bm ! idx), g, b))"
    have "same_up_to_red_lsb (px p) (?px p)"
      using q by (auto simp: same_up_to_red_lsb_refl same_up_to_red_lsb_set)
    moreover have "same_up_to_red_lsb (?px p) (snd (encode_lsb_row bm y xs (idx + 1, ?px)) p)"
      by (rule Cons.IH)
    ultimately have "same_up_to_red_lsb (px p) (snd (encode_lsb_row bm y xs (idx + 1, ?px)) p)"
      by (rule same_up_to_red_lsb_trans)
    then show ?thesis using True q by simp
  qed
qed

lemma encode_lsb_row_idx:
  "idx \<le> length bm \<Longrightarrow>
   fst (encode_lsb_row bm y xs (idx, px)) = min (idx + length xs) (length bm)"
proof (induction xs arbitrary: idx px)
  case Nil
  then show ?case by simp
next
  case (Cons x xs)
  show ?case
  proof (cases "idx < length bm")
    case False
    with Cons.prems show ?thesis by simp
  next
    case True
    obtain r g b where q: "px (x, y) = (r, g, b)" by (cases "px (x, y)") auto
    have "idx + 1 \<le> length bm" using True by simp
    from Cons.IH [OF this] show ?thesis using True q by simp
  qed
qed

lemma encode_lsb_row_local:
  "snd (encode_lsb_row bm y xs (idx, px)) p \<noteq> px p \<Longrightarrow>
   \<exists>k < length xs. p = (xs ! k, y) \<and> idx + k < length bm"
proof (induction xs arbitrary: idx px)
  case Nil
  then show ?case by simp
next
  case (Cons x xs)
  show ?case
  proof (cases "idx < length bm")
    case False
    with Cons.prems show ?thesis by simp
  next
    case True
    obtain r g b where q: "px (x, y) = (r, g, b)" by (cases "px (x, y)") auto
    let ?px = "px((x, y) := (set_lsb r (bm ! idx), g, b))"
    have s: "snd (encode_lsb_row bm y (x # xs) (idx, px)) = snd (encode_lsb_row bm y xs (idx + 1, ?px))"
      using True q by simp
    show ?thesis
    proof (cases "p = (x, y)")
      case True
      with \<open>idx < length bm\<close> show ?thesis by (intro exI [of _ 0]) simp
    next
      case False
      then have "?px p = px p" by simp
      with Cons.prems s have "snd (encode_lsb_row bm y xs (idx + 1, ?px)) p \<noteq> ?px p"
        by simp
      from Cons.IH [OF this] obtain k where "k < length xs" "p = (xs ! k, y)"
        "idx + 1 + k < length bm" by blast
      then show ?thesis by (intro exI [of _ "Suc k"]) simp
    qed
  qed
qed

lemma encode_lsb_rows:
  fixes bm w px
  defines "S \<equiv> \<lambda>h. fold (\<lambda>y st. encode_lsb_row bm y [0..<w] st) [0..<h] (0, px)"
  shows "fst (S h) = min (h * w) (length bm) \<and>
         (\<forall>p. same_up_to_red_lsb (px p) (snd (S h) p)) \<and>
         (\<forall>p. snd (S h) p \<noteq> px p \<longrightarrow>
              (\<exists>x y. p = (x, y) \<and> x < w \<and> y < h \<and> y * w + x < length bm))"
proof (induction h)
  case 0
  show ?case by (simp add: S_def same_up_to_red_lsb_refl)
next
  case (Suc h)
  obtain idx px' where st: "S h = (idx, px')" by (cases "S h") auto
  have step: "S (Suc h) = encode_lsb_row bm h [0..<w] (idx, px')"
    using st by (simp add: S_def)
  have idx: "idx = min (h * w) (length bm)"
    using Suc.IH st by simp
  then have le: "idx \<le> length bm" by simp
  have "fst (S (Suc h)) = min (idx + w) (length bm)"
    using encode_lsb_row_idx [OF le, of h "[0..<w]" px'] step by simp
  then have c1: "fst (S (Suc h)) = min (Suc h * w) (length bm)"
    using idx by (simp add: min_def)
  have c2: "same_up_to_red_lsb (px p) (snd (S (Suc h)) p)" for p
  proof -
    have "same_up_to_red_lsb (px p) (px' p)"
      using Suc.IH st by (cases p) auto
    moreover have "same_up_to_red_lsb (px' p) (snd (encode_lsb_row bm h [0..<w] (idx, px')) p)"
      by (rule encode_lsb_row_frame)
    ultimately show ?thesis
      unfolding step by (rule same_up_to_red_lsb_trans)
  qed
  have c3: "\<exists>x y. p = (x, y) \<and> x < w \<and> y < Suc h \<and> y * w + x < length bm"
    if ne: "snd (S (Suc h)) p \<noteq> px p" for p
  proof (cases "px' p = px p")
    case False
    then have "\<exists>x y. p = (x, y) \<and> x < w \<and> y < h \<and> y * w + x < length bm"
      using Suc.IH st by (cases p) auto
    then show ?thesis using less_SucI by blast
  next
    case True
    with ne have "snd (encode_lsb_row bm h [0..<w] (idx, px')) p \<noteq> px' p"
      unfolding step by simp
    from encode_lsb_row_local [OF this]
    obtain k where k: "k < w" "p = (k, h)" "idx + k < length bm" by auto
    from k(3) idx have "h * w + k < length bm"
      by (simp add: min_def split: if_splits)
    with k show ?thesis by auto
  qed
  from c1 c2 c3 show ?case by blast
qed

lemma encode_lsb_loop_frame:
  "same_up_to_red_lsb (px p) (encode_lsb_loop bm w h px p)"
  using encode_lsb_rows [where bm = bm and w = w and px = px and h = h]
  unfolding encode_lsb_loop_def by blast

lemma encode_lsb_loop_local:
  "encode_lsb_loop bm w h px (x, y) \<noteq> px (x, y) \<Longrightarrow>
   x < w \<and> y < h \<and> y * w + x < length bm"
  using encode_lsb_rows [where bm = bm and w = w and px = px and h = h]
  unfolding encode_lsb_loop_def by blast

lemma encode_ai_frame:
  assumes "encode_ai f importance_map message threshold = (Inr True, Some out)"
  shows "\<exists>img message_bytes.
           contents f = Some img \<and> encode_utf8 message = Inr message_bytes \<and>
           width out = width img \<and> height out = height img \<and>
           (\<forall>p. same_up_to_red_lsb (pixels img p) (pixels out p)) \<and>
           (\<forall>p. pixels out p \<noteq> pixels img p \<longrightarrow>
              p \<in> coords ` set (take (length (message_bits message_bytes @ encoder_terminator))
                     (sort_encoder (scan_candidates importance_map (width img) (height img)
                        threshold))))"
proof -
  from assms obtain img message_bytes where
    a: "contents f = Some img" "encode_utf8 message = Inr message_bytes"
       "out = img\<lparr>pixels := write_bits
          (sort_encoder (scan_candidates importance_map (width img) (height img) threshold))
          (message_bits message_bytes @ encoder_terminator) (pixels img)\<rparr>"
    by (auto simp: encode_ai_def Let_def split: sum.splits option.splits if_splits)
  have 1: "width out = width img \<and> height out = height img"
    by (simp add: a(3))
  have 2: "\<forall>p. same_up_to_red_lsb (pixels img p) (pixels out p)"
    by (simp add: a(3) write_bits_frame)
  have 3: "\<forall>p. pixels out p \<noteq> pixels img p \<longrightarrow>
              p \<in> coords ` set (take (length (message_bits message_bytes @ encoder_terminator))
                     (sort_encoder (scan_candidates importance_map (width img) (height img)
                        threshold)))"
  proof (intro allI impI)
    fix p
    assume "pixels out p \<noteq> pixels img p"
    then have "write_bits
          (sort_encoder (scan_candidates importance_map (width img) (height img) threshold))
          (message_bits message_bytes @ encoder_terminator) (pixels img) p \<noteq> pixels img p"
      by (simp add: a(3))
    then show "p \<in> coords ` set (take (length (message_bits message_bytes @ encoder_terminator))
                     (sort_encoder (scan_candidates importance_map (width img) (height img)
                        threshold)))"
      by (rule write_bits_local)
  qed
  from a(1,2) 1 2 3 show ?thesis by blast
qed

lemma encode_lsb_frame:
  assumes "encode_lsb f message = (Inr True, Some out)"
  shows "\<exists>img.
           contents f = Some img \<and>
           width out = width img \<and> height out = height img \<and>
           (\<forall>p. same_up_to_red_lsb (pixels img p) (pixels out p)) \<and>
           (\<forall>x y. pixels out (x, y) \<noteq> pixels img (x, y) \<longrightarrow>
              x < width img \<and> y < height img \<and>
              y * width img + x < length (lsb_binary_message message))"
proof -
  from assms obtain img where
    b: "contents f = Some img"
       "out = img\<lparr>pixels := encode_lsb_loop (lsb_binary_message message)
          (width img) (height img) (pixels img)\<rparr>"
    by (auto simp: encode_lsb_def Let_def split: sum.splits option.splits if_splits)
  have 4: "width out = width img \<and> height out = height img"
    by (simp add: b(2))
  have 5: "\<forall>p. same_up_to_red_lsb (pixels img p) (pixels out p)"
    by (simp add: b(2) encode_lsb_loop_frame)
  have 6: "\<forall>x y. pixels out (x, y) \<noteq> pixels img (x, y) \<longrightarrow>
              x < width img \<and> y < height img \<and>
              y * width img + x < length (lsb_binary_message message)"
  proof (intro allI impI)
    fix x y
    assume "pixels out (x, y) \<noteq> pixels img (x, y)"
    then have "encode_lsb_loop (lsb_binary_message message)
          (width img) (height img) (pixels img) (x, y) \<noteq> pixels img (x, y)"
      by (simp add: b(2))
    then show "x < width img \<and> y < height img \<and>
              y * width img + x < length (lsb_binary_message message)"
      by (rule encode_lsb_loop_local)
  qed
  from b(1) 4 5 6 show ?thesis by blast
qed

lemma encode_lsb_accepts:
  assumes "validate_image_path f = Inr True" and "contents f = Some img"
    and "int (length message) \<le> (int (width img) * int (height img) - 8) div 8"
  shows "encode_lsb f message
        = (Inr True,
           Some (img\<lparr>pixels := encode_lsb_loop (lsb_binary_message message)
                   (width img) (height img) (pixels img)\<rparr>))"
  using assms by (simp add: encode_lsb_def calculate_max_message_size_def Let_def)

text \<open>
  C9. When \<open>encode_ai\<close> succeeds, the written image has the size of the input, every
  pixel keeps its green and blue values and its red value up to the least significant
  bit, and a pixel that changed is the pixel of one of the first \<open>len(binary_message)\<close>
  candidates in the encoder's order. The same holds for \<open>encode_lsb\<close>, whose sequence is
  the raster scan: a pixel \<open>(x, y)\<close> that changed has a raster position \<open>y * width + x\<close>
  below \<open>len(binary_message)\<close>.
\<close>

theorem single_channel_encode_frame:
  "(encode_ai f importance_map message threshold = (Inr True, Some out) \<longrightarrow>
      (\<exists>img message_bytes.
           contents f = Some img \<and> encode_utf8 message = Inr message_bytes \<and>
           width out = width img \<and> height out = height img \<and>
           (\<forall>p. same_up_to_red_lsb (pixels img p) (pixels out p)) \<and>
           (\<forall>p. pixels out p \<noteq> pixels img p \<longrightarrow>
              p \<in> coords ` set (take (length (message_bits message_bytes @ encoder_terminator))
                     (sort_encoder (scan_candidates importance_map (width img) (height img)
                        threshold)))))) \<and>
   (encode_lsb f' message' = (Inr True, Some out') \<longrightarrow>
      (\<exists>img'.
           contents f' = Some img' \<and>
           width out' = width img' \<and> height out' = height img' \<and>
           (\<forall>p. same_up_to_red_lsb (pixels img' p) (pixels out' p)) \<and>
           (\<forall>x y. pixels out' (x, y) \<noteq> pixels img' (x, y) \<longrightarrow>
              x < width img' \<and> y < height img' \<and>
              y * width img' + x < length (lsb_binary_message message'))))"
  using encode_ai_frame [of f importance_map message threshold out]
    encode_lsb_frame [of f' message' out']
  by blast

theorem single_channel_encode_frame_witness:
  "\<exists>out out'.
     encode_ai solid_80 (\<lambda>p. 0) [104, 105] 0 = (Inr True, Some out) \<and>
     encode_lsb black_16 [65] = (Inr True, Some out') \<and>
     width out = 80 \<and> height out = 1 \<and> same_up_to_red_lsb (0, 0, 0) (pixels out (1, 0)) \<and>
     width out' = 16 \<and> height out' = 1 \<and> same_up_to_red_lsb (0, 0, 0) (pixels out' (1, 0))"
proof -
  let ?img = "\<lparr>width = 80, height = 1, pixels = (\<lambda>p. (0, 0, 0))\<rparr> :: image"
  let ?img' = "\<lparr>width = 16, height = 1, pixels = (\<lambda>p. (0, 0, 0))\<rparr> :: image"
  let ?out = "?img\<lparr>pixels := write_bits
          (sort_encoder (scan_candidates (\<lambda>p. 0) (width ?img) (height ?img) 0))
          (message_bits [104, 105] @ encoder_terminator) (pixels ?img)\<rparr>"
  let ?out' = "?img'\<lparr>pixels := encode_lsb_loop (lsb_binary_message [65])
                   (width ?img') (height ?img') (pixels ?img')\<rparr>"
  have v: "validate_image_path solid_80 = Inr True"
    by (simp add: solid_80_def validate_image_path_def supported_formats_def)
  have c: "contents solid_80 = Some ?img"
    by (simp add: solid_80_def)
  have u: "encode_utf8 [104, 105] = Inr [104, 105]"
    by (simp add: utf8_char_def)
  have fit: "length (message_bits [104, 105] @ encoder_terminator)
               \<le> length (scan_candidates (\<lambda>p. 0) (width ?img) (height ?img) 0)"
    by code_simp
  have v': "validate_image_path black_16 = Inr True"
    by (simp add: black_16_def validate_image_path_def supported_formats_def)
  have c': "contents black_16 = Some ?img'"
    by (simp add: black_16_def)
  have m': "int (length [65::nat]) \<le> (int (width ?img') * int (height ?img') - 8) div 8"
    by simp
  note e = encode_ai_accepts [OF v c u fit]
  note e' = encode_lsb_accepts [OF v' c' m']
  note t = single_channel_encode_frame
    [of solid_80 "\<lambda>p. 0" "[104, 105]" 0 ?out black_16 "[65]" ?out']
  from t e obtain img where
    r: "contents solid_80 = Some img"
       "\<forall>p. same_up_to_red_lsb (pixels img p) (pixels ?out p)"
    by blast
  from t e' obtain img' where
    r': "contents black_16 = Some img'"
        "\<forall>p. same_up_to_red_lsb (pixels img' p) (pixels ?out' p)"
    by blast
  from r(1) c have i: "img = ?img" by simp
  from r'(1) c' have i': "img' = ?img'" by simp
  have A: "same_up_to_red_lsb (0, 0, 0) (pixels ?out (1, 0))"
    using r(2) [unfolded i, rule_format, of "(1, 0)"] by simp
  have A': "same_up_to_red_lsb (0, 0, 0) (pixels ?out' (1, 0))"
    using r'(2) [unfolded i', rule_format, of "(1, 0)"] by simp
  show ?thesis
    apply (rule exI, rule exI)
    apply (intro conjI)
           apply (rule e)
          apply (rule e')
         apply simp
        apply simp
       apply (rule A)
      apply simp
     apply simp
    apply (rule A')
    done
qed

section \<open>The importance maps of the encoder and of the decoder\<close>











end
